theory Spec2Isabelle
  imports
    Complex_Main
    "HOL-Library.Sublist"
    "HOL-Library.Char_ord"
    "HOL-Library.List_Lexorder"
    "HOL-Library.Multiset"
begin

section \<open>Data model\<close>

text \<open>
  The functions of \<^verbatim>\<open>utils.py\<close> work on pandas data frames whose rows come from the
  sheets created by \<^verbatim>\<open>setup_sheets.py\<close>. A data frame is modelled as the list of its
  rows, in iteration order, and a row as a record with one field per column of the sheet.

  A cell of a sheet is a Python value: text, a whole number, a floating point number, or
  a timestamp. Amounts are modelled as exact real numbers, so the rounding of binary
  floating point is outside the model. A date column has been through
  \<^verbatim>\<open>pd.to_datetime(..., errors='coerce')\<close>, so a date may be missing (NaT), which is
  \<open>None\<close> here. The amounts of a transaction record are numbers; the frame that
  \<^verbatim>\<open>calculate_monthly_summary\<close> reads is modelled further below with the missing
  amounts (NaN) that \<^verbatim>\<open>pd.to_numeric(..., errors='coerce')\<close> leaves.

  The columns \<^verbatim>\<open>payee\<close>, \<^verbatim>\<open>category\<close> and \<^verbatim>\<open>transaction_id\<close> hold text, and the
  columns that no function reads by name hold any cell. A field keeps the name of its
  column, except that the column \<^verbatim>\<open>notes\<close> is the field \<open>txn_notes\<close> and that the
  columns \<^verbatim>\<open>user_id\<close>, \<^verbatim>\<open>category\<close> and \<^verbatim>\<open>created_at\<close> of the rule and budget
  sheets carry the prefix \<open>rule_\<close> or \<open>budget_\<close>.
\<close>

datatype timestamp = Timestamp (ts_year: nat) (ts_month: nat) (ts_day: nat)

datatype cell = Text string | Integer int | Number real | Stamp "timestamp option"

text \<open>Columns of the sheet \<^verbatim>\<open>Transactions\<close>, in the order of \<^verbatim>\<open>transactions_headers\<close>.\<close>

record transaction =
  user_id :: cell
  transaction_id :: string
  date :: "timestamp option"
  payee :: string
  amount :: real
  category :: string
  account_name :: cell
  account_id :: cell
  txn_notes :: cell
  pending :: cell
  created_at :: cell
  modified_at :: cell

text \<open>Columns of the sheet \<^verbatim>\<open>User_Rules\<close>, in the order of \<^verbatim>\<open>rules_headers\<close>.\<close>

record rule =
  rule_user_id :: cell
  rule_id :: cell
  priority :: int
  rule_field :: string
  rule_condition :: string
  rule_value :: cell
  rule_category :: string
  rule_created_at :: cell

text \<open>Columns of the sheet \<^verbatim>\<open>Budget_Monthly\<close>, in the order of \<^verbatim>\<open>budget_headers\<close>.\<close>

record budget =
  budget_user_id :: cell
  month_year :: string
  budget_category :: string
  budgeted :: real
  spent :: real
  last_updated :: cell

section \<open>Python strings\<close>

text \<open>
  A Python string is a \<^typ>\<open>string\<close>. \<^verbatim>\<open>a in b\<close> on strings is \<^const>\<open>sublist\<close>,
  \<^verbatim>\<open>b.startswith(a)\<close> is \<^const>\<open>prefix\<close> and \<^verbatim>\<open>b.endswith(a)\<close> is \<^const>\<open>suffix\<close>.
  A character is a code point below 256. \<^verbatim>\<open>str.lower\<close> moves the capital letters of
  this range to their small forms, which are 32 code points further: the letters
  \<^verbatim>\<open>A\<close> to \<^verbatim>\<open>Z\<close> (65 to 90) and the accented capitals from 192 to 222, without the
  multiplication sign 215. Every other character of the range stays as it is.
\<close>

definition lower_char :: "char \<Rightarrow> char" where
  "lower_char c =
     (let n = (of_char c :: nat)
      in if (65 \<le> n \<and> n \<le> 90) \<or> (192 \<le> n \<and> n \<le> 222 \<and> n \<noteq> 215)
         then char_of (n + 32) else c)"

definition lower :: "string \<Rightarrow> string" where
  "lower s = map lower_char s"

text \<open>
  \<^verbatim>\<open>str(v)\<close>: a string is returned as it is. The text that Python prints for a whole
  number, a floating point number or a timestamp is library behaviour and is taken as the
  parameter \<open>render\<close>.
\<close>

fun py_str :: "(cell \<Rightarrow> string) \<Rightarrow> cell \<Rightarrow> string" where
  "py_str render (Text s) = s"
| "py_str render c = render c"

section \<open>Keyword categorizer\<close>

text \<open>\<^verbatim>\<open>config.CATEGORY_KEYWORDS\<close>: a dict literal, iterated in the order it is written.\<close>

definition CATEGORY_KEYWORDS :: "(string \<times> string list) list" where
  "CATEGORY_KEYWORDS =
    [(''Income'', [''salary'', ''paycheck'', ''deposit'', ''income'', ''payment received'']),
     (''Food & Dining'', [''restaurant'', ''cafe'', ''starbucks'', ''mcdonald'', ''chipotle'',
        ''pizza'', ''uber eats'', ''doordash'', ''grubhub'']),
     (''Groceries'', [''whole foods'', ''trader joe'', ''safeway'', ''kroger'', ''walmart'',
        ''target'', ''grocery'', ''market'']),
     (''Transportation'', [''uber'', ''lyft'', ''taxi'', ''transit'', ''metro'', ''bus'',
        ''train'', ''parking'']),
     (''Gas & Fuel'', [''shell'', ''chevron'', ''exxon'', ''mobil'', ''bp'', ''gas'', ''fuel'']),
     (''Shopping'', [''amazon'', ''ebay'', ''etsy'', ''target'', ''walmart'', ''costco'',
        ''best buy'']),
     (''Entertainment'', [''netflix'', ''spotify'', ''hulu'', ''disney'', ''movie'', ''theater'',
        ''steam'', ''playstation'']),
     (''Bills & Utilities'', [''electric'', ''water'', ''internet'', ''phone'', ''verizon'',
        ''at&t'', ''comcast'', ''utility'']),
     (''Healthcare'', [''pharmacy'', ''doctor'', ''hospital'', ''medical'', ''cvs'', ''walgreens'',
        ''health'']),
     (''Travel'', [''airline'', ''hotel'', ''airbnb'', ''booking'', ''expedia'', ''flight'']),
     (''Personal Care'', [''salon'', ''spa'', ''gym'', ''fitness'', ''haircut'']),
     (''Transfer'', [''transfer'', ''venmo'', ''paypal'', ''zelle'', ''cash app''])]"

text \<open>
  The inner loop of \<^verbatim>\<open>auto_categorize_transaction\<close> over the keywords of one category:
  \<open>True\<close> when it reaches the \<^verbatim>\<open>return category\<close>.
\<close>

fun keyword_loop :: "string \<Rightarrow> string list \<Rightarrow> bool" where
  "keyword_loop payee_lower [] = False"
| "keyword_loop payee_lower (keyword # keywords) =
     (if sublist (lower keyword) payee_lower then True
      else keyword_loop payee_lower keywords)"

text \<open>The outer loop over the items of the table, with the final return after it.\<close>

fun category_loop :: "string \<Rightarrow> (string \<times> string list) list \<Rightarrow> string" where
  "category_loop payee_lower [] = ''Uncategorized''"
| "category_loop payee_lower ((cat, keywords) # items) =
     (if keyword_loop payee_lower keywords then cat
      else category_loop payee_lower items)"

definition auto_categorize_transaction :: "string \<Rightarrow> string" where
  "auto_categorize_transaction p =
     (if p = [] then ''Uncategorized''
      else category_loop (lower p) CATEGORY_KEYWORDS)"

section \<open>Rule engine\<close>

text \<open>
  \<^verbatim>\<open>transaction.get(name, '')\<close> on a row: the cell of the column called \<open>name\<close>, and
  the default when the row has no such column.
\<close>

definition get :: "transaction \<Rightarrow> string \<Rightarrow> cell \<Rightarrow> cell" where
  "get t name dflt =
     (if name = ''user_id'' then user_id t
      else if name = ''transaction_id'' then Text (transaction_id t)
      else if name = ''date'' then Stamp (date t)
      else if name = ''payee'' then Text (payee t)
      else if name = ''amount'' then Number (amount t)
      else if name = ''category'' then Text (category t)
      else if name = ''account_name'' then account_name t
      else if name = ''account_id'' then account_id t
      else if name = ''notes'' then txn_notes t
      else if name = ''pending'' then pending t
      else if name = ''created_at'' then created_at t
      else if name = ''modified_at'' then modified_at t
      else dflt)"

definition columns :: "string list" where
  "columns = [''user_id'', ''transaction_id'', ''date'', ''payee'', ''amount'', ''category'',
     ''account_name'', ''account_id'', ''notes'', ''pending'', ''created_at'', ''modified_at'']"

definition apply_rule :: "(cell \<Rightarrow> string) \<Rightarrow> transaction \<Rightarrow> rule \<Rightarrow> bool" where
  "apply_rule render t r =
     (let field_value = lower (py_str render (get t (rule_field r) (Text '''')));
          rule_val = lower (py_str render (rule_value r));
          condition = rule_condition r
      in if condition = ''contains'' then sublist rule_val field_value
         else if condition = ''equals'' then field_value = rule_val
         else if condition = ''starts_with'' then prefix rule_val field_value
         else if condition = ''ends_with'' then suffix rule_val field_value
         else False)"

text \<open>
  The inner loop of \<^verbatim>\<open>apply_rules_to_transactions\<close> for one transaction: it returns the
  list \<open>updates\<close> as it is when the loop ends, by the \<^verbatim>\<open>break\<close> or by exhaustion.
\<close>

fun rule_loop ::
  "(cell \<Rightarrow> string) \<Rightarrow> transaction \<Rightarrow> rule list \<Rightarrow> (string \<times> string) list
     \<Rightarrow> (string \<times> string) list" where
  "rule_loop render txn [] updates = updates"
| "rule_loop render txn (r # rules) updates =
     (if apply_rule render txn r then
        (if category txn \<noteq> rule_category r
         then updates @ [(transaction_id txn, rule_category r)]
         else updates)
      else rule_loop render txn rules updates)"

fun txn_loop ::
  "(cell \<Rightarrow> string) \<Rightarrow> transaction list \<Rightarrow> rule list \<Rightarrow> (string \<times> string) list
     \<Rightarrow> (string \<times> string) list" where
  "txn_loop render [] rules updates = updates"
| "txn_loop render (txn # txns) rules updates =
     txn_loop render txns rules (rule_loop render txn rules updates)"

definition apply_rules_to_transactions ::
  "(cell \<Rightarrow> string) \<Rightarrow> transaction list \<Rightarrow> rule list \<Rightarrow> (string \<times> string) list" where
  "apply_rules_to_transactions render transactions_df rules_df =
     txn_loop render transactions_df rules_df []"

section \<open>Budget reconciler\<close>

text \<open>
  \<^verbatim>\<open>rows.groupby(key)[col].sum()\<close>: a series with one entry for each distinct key, the
  keys in ascending order (pandas sorts the group keys), holding the sum of the column over
  the rows of the key. Python orders strings by code point, which is the lexicographic
  order of \<^typ>\<open>string\<close>.
\<close>

definition groupby_sum :: "('r \<Rightarrow> string) \<Rightarrow> ('r \<Rightarrow> real) \<Rightarrow> 'r list \<Rightarrow> (string \<times> real) list" where
  "groupby_sum key col rows =
     map (\<lambda>k. (k, sum_list (map col (filter (\<lambda>r. key r = k) rows))))
       (sort (remdups (map key rows)))"

text \<open>
  \<^verbatim>\<open>result['category'].map(spending).fillna(0)\<close> looks each category up in the index of
  the series; a category that is not there gives NaN, which \<^verbatim>\<open>fillna\<close> replaces by 0.
\<close>

definition calculate_budget_progress :: "budget list \<Rightarrow> transaction list \<Rightarrow> budget list" where
  "calculate_budget_progress budgets_df transactions_df =
     (let spending = groupby_sum category amount (filter (\<lambda>t. amount t < 0) transactions_df)
      in map (\<lambda>b. b\<lparr>spent := (case map_of spending (budget_category b) of
                                  None \<Rightarrow> 0 | Some s \<Rightarrow> s)\<rparr>) budgets_df)"

text \<open>
  The three values that \<^verbatim>\<open>show_budgets_page\<close> of \<^verbatim>\<open>app.py\<close> computes from a row of
  the result: \<^verbatim>\<open>spent = abs(budget['spent'])\<close>, \<^verbatim>\<open>remaining\<close> and \<^verbatim>\<open>percent\<close>.
\<close>

definition shown_spent :: "budget \<Rightarrow> real" where
  "shown_spent b = \<bar>spent b\<bar>"

definition remaining :: "budget \<Rightarrow> real" where
  "remaining b = budgeted b - shown_spent b"

definition percent :: "budget \<Rightarrow> real" where
  "percent b = (if budgeted b > 0 then shown_spent b / budgeted b * 100 else 0)"

section \<open>Summary and trend calculators\<close>






record summary =
  income :: real
  expenses :: real
  net :: real
  transaction_count :: nat
  avg_transaction :: "real option"












definition calculate_trend :: "real \<Rightarrow> real \<Rightarrow> real \<times> string" where
  "calculate_trend current previous =
     (if previous = 0 then (0, ''neutral'')
      else
        (let change = ((current - previous) / \<bar>previous\<bar>) * 100;
             direction = (if change > 0 then ''up''
                          else if change < 0 then ''down''
                          else ''neutral'')
         in (\<bar>change\<bar>, direction)))"

text \<open>
  \<^verbatim>\<open>Series.sort_values(ascending=False)\<close> is called with the default kind of sort,
  \<^verbatim>\<open>quicksort\<close>, which is not stable: pandas returns the entries of the series with the
  values in descending order, and the order among entries of equal value is left to the
  library. The sort is therefore a parameter of \<^verbatim>\<open>get_top_merchants\<close>, and
  \<open>descending_sort\<close> says what pandas promises of it.
\<close>

definition descending_sort :: "((string \<times> real) list \<Rightarrow> (string \<times> real) list) \<Rightarrow> bool" where
  "descending_sort sort_values \<longleftrightarrow>
     (\<forall>s. mset (sort_values s) = mset s \<and> sorted_wrt (\<lambda>a b. snd b \<le> snd a) (sort_values s))"

text \<open>
  Two sorts that keep this promise. The first leaves entries of equal value in the order
  of the series, the second reverses them.
\<close>

definition stable_sort_values :: "(string \<times> real) list \<Rightarrow> (string \<times> real) list" where
  "stable_sort_values s = rev (sort_key snd (rev s))"

definition reversing_sort_values :: "(string \<times> real) list \<Rightarrow> (string \<times> real) list" where
  "reversing_sort_values s = rev (sort_key snd s)"

text \<open>\<^verbatim>\<open>Series.head(n)\<close>: the first \<open>n\<close> entries, and all but the last \<open>-n\<close> for a negative \<open>n\<close>.\<close>

definition head :: "int \<Rightarrow> 'a list \<Rightarrow> 'a list" where
  "head n xs = (if 0 \<le> n then take (nat n) xs else take (length xs - nat (- n)) xs)"

text \<open>The result frame is the list of its rows (\<^verbatim>\<open>Merchant\<close>, \<^verbatim>\<open>Total Spent\<close>).\<close>

definition get_top_merchants ::
  "((string \<times> real) list \<Rightarrow> (string \<times> real) list) \<Rightarrow> transaction list \<Rightarrow> int
     \<Rightarrow> (string \<times> real) list" where
  "get_top_merchants sort_values df n =
     (let expenses = map (\<lambda>t. t\<lparr>amount := \<bar>amount t\<bar>\<rparr>) (filter (\<lambda>t. amount t < 0) df);
          top = head n (sort_values (groupby_sum payee amount expenses))
      in top)"

section \<open>Example data\<close>

text \<open>Rows of the three sheets, used to run the functions on concrete inputs.\<close>

definition example_txn :: "string \<Rightarrow> string \<Rightarrow> real \<Rightarrow> string \<Rightarrow> transaction" where
  "example_txn tid p a c =
     \<lparr>user_id = Text ''u1'', transaction_id = tid, date = Some (Timestamp 2025 1 15),
      payee = p, amount = a, category = c, account_name = Text ''Checking'',
      account_id = Text ''acc1'', txn_notes = Text '''', pending = Text ''FALSE'',
      created_at = Text ''2025-01-15 10:00:00'', modified_at = Text ''2025-01-15 10:00:00''\<rparr>"

definition example_rule :: "int \<Rightarrow> string \<Rightarrow> string \<Rightarrow> string \<Rightarrow> string \<Rightarrow> rule" where
  "example_rule prio fld cond val cat =
     \<lparr>rule_user_id = Text ''u1'', rule_id = Text ''r1'', priority = prio, rule_field = fld,
      rule_condition = cond, rule_value = Text val, rule_category = cat,
      rule_created_at = Text ''2025-01-01 09:00:00''\<rparr>"

definition example_budget :: "string \<Rightarrow> real \<Rightarrow> real \<Rightarrow> budget" where
  "example_budget c b s =
     \<lparr>budget_user_id = Text ''u1'', month_year = ''2025-01'', budget_category = c,
      budgeted = b, spent = s, last_updated = Text ''2025-01-01 09:00:00''\<rparr>"

definition example_txns :: "transaction list" where
  "example_txns =
     [example_txn ''t1'' ''Zed'' (-5) ''Other'',
      example_txn ''t2'' ''Abe'' (-5) ''Other'',
      example_txn ''t3'' ''Bob'' (-7) ''Shopping'',
      example_txn ''t4'' ''Abe'' 3 ''Income'',
      example_txn ''t5'' ''Zed'' (-2) ''Other'',
      example_txn ''t6'' ''Cy'' (-7) ''Other'']"



section \<open>The loops of the rule engine and of the categorizer\<close>

lemma rule_loop_find:
  "rule_loop render t rules ups = ups @
     (case find (apply_rule render t) rules of
        None \<Rightarrow> []
      | Some r \<Rightarrow> if rule_category r = category t then []
                  else [(transaction_id t, rule_category r)])"
  by (induction rules) auto

lemma txn_loop_concat:
  "txn_loop render txns rules ups = ups @ concat (map (\<lambda>t. rule_loop render t rules []) txns)"
proof (induction txns arbitrary: ups)
  case Nil
  show ?case by simp
next
  case (Cons t ts)
  have "rule_loop render t rules ups = ups @ rule_loop render t rules []"
    by (simp add: rule_loop_find)
  then show ?case by (simp add: Cons.IH)
qed

lemma length_concat_le:
  "(\<And>x. x \<in> set xs \<Longrightarrow> length (f x) \<le> 1) \<Longrightarrow> length (concat (map f xs)) \<le> length xs"
proof (induction xs)
  case Nil
  show ?case by simp
next
  case (Cons a xs)
  have "length (f a) \<le> 1" using Cons.prems by simp
  moreover have "length (concat (map f xs)) \<le> length xs"
    using Cons.prems by (intro Cons.IH) simp
  ultimately show ?case by simp
qed

text \<open>
  C1. Whatever the list of rules is, and so for every list sorted ascending by priority,
  \<^verbatim>\<open>apply_rules_to_transactions\<close> goes through the transactions in their order and
  emits for each one nothing or one pair: nothing when no rule matches or when the first
  matching rule carries the category the transaction already has, and otherwise the
  transaction's identifier with the category of the first matching rule. So there are at
  most as many updates as transactions.
\<close>

theorem apply_rules_first_match:
  "apply_rules_to_transactions render txns rules =
     concat (map (\<lambda>t. case find (apply_rule render t) rules of
                         None \<Rightarrow> []
                       | Some r \<Rightarrow> if rule_category r = category t then []
                                   else [(transaction_id t, rule_category r)]) txns)
   \<and> length (apply_rules_to_transactions render txns rules) \<le> length txns"
proof -
  have eq: "apply_rules_to_transactions render txns rules =
     concat (map (\<lambda>t. case find (apply_rule render t) rules of
                         None \<Rightarrow> []
                       | Some r \<Rightarrow> if rule_category r = category t then []
                                   else [(transaction_id t, rule_category r)]) txns)"
    by (simp add: apply_rules_to_transactions_def txn_loop_concat rule_loop_find)
  have "length (concat (map (\<lambda>t. case find (apply_rule render t) rules of
                         None \<Rightarrow> []
                       | Some r \<Rightarrow> if rule_category r = category t then []
                                   else [(transaction_id t, rule_category r)]) txns)) \<le> length txns"
    by (rule length_concat_le) (simp split: option.split)
  with eq show ?thesis by simp
qed

theorem apply_rules_first_match_witness:
  "apply_rules_to_transactions (\<lambda>c. '''')
     [example_txn ''t1'' ''AMAZON.COM'' (-20) ''Uncategorized'',
      example_txn ''t2'' ''Corner Shop'' (-5) ''Uncategorized'',
      example_txn ''t3'' ''Amazon Prime'' (-9) ''Shopping'']
     [example_rule 1 ''payee'' ''contains'' ''amazon'' ''Shopping'',
      example_rule 2 ''payee'' ''contains'' ''amazon'' ''Other'']
   = [(''t1'', ''Shopping'')]"
proof -
  let ?txns = "[example_txn ''t1'' ''AMAZON.COM'' (-20) ''Uncategorized'',
      example_txn ''t2'' ''Corner Shop'' (-5) ''Uncategorized'',
      example_txn ''t3'' ''Amazon Prime'' (-9) ''Shopping'']"
  let ?rules = "[example_rule 1 ''payee'' ''contains'' ''amazon'' ''Shopping'',
      example_rule 2 ''payee'' ''contains'' ''amazon'' ''Other'']"
  have "apply_rules_to_transactions (\<lambda>c. '''') ?txns ?rules =
     concat (map (\<lambda>t. case find (apply_rule (\<lambda>c. '''') t) ?rules of
                         None \<Rightarrow> []
                       | Some r \<Rightarrow> if rule_category r = category t then []
                                   else [(transaction_id t, rule_category r)]) ?txns)"
    using apply_rules_first_match [of "\<lambda>c. ''''" ?txns ?rules] by (rule conjunct1)
  also have "\<dots> = [(''t1'', ''Shopping'')]"
    by code_simp
  finally show ?thesis .
qed

lemma keyword_loop_ex: "keyword_loop s kws \<longleftrightarrow> (\<exists>k\<in>set kws. sublist (lower k) s)"
  by (induction kws) auto

lemma category_loop_find:
  "category_loop s tbl =
     (case find (\<lambda>(c, kws). \<exists>k\<in>set kws. sublist (lower k) s) tbl of
        None \<Rightarrow> ''Uncategorized'' | Some (c, kws) \<Rightarrow> c)"
  by (induction s tbl rule: category_loop.induct) (auto simp: keyword_loop_ex)

lemma lower_Nil_iff: "lower k = [] \<longleftrightarrow> k = []"
  by (simp add: lower_def)

lemma keywords_nonempty: "(c, kws) \<in> set CATEGORY_KEYWORDS \<Longrightarrow> k \<in> set kws \<Longrightarrow> k \<noteq> []"
  by (auto simp add: CATEGORY_KEYWORDS_def)

lemma category_loop_Nil:
  "(\<And>c kws k. (c, kws) \<in> set tbl \<Longrightarrow> k \<in> set kws \<Longrightarrow> k \<noteq> [])
     \<Longrightarrow> category_loop [] tbl = ''Uncategorized''"
proof (induction tbl)
  case Nil
  show ?case by simp
next
  case (Cons a tbl)
  obtain c kws where a: "a = (c, kws)" by (cases a)
  have "\<not> keyword_loop [] kws"
    using Cons.prems[of c kws] by (auto simp: keyword_loop_ex a lower_Nil_iff)
  moreover have "category_loop [] tbl = ''Uncategorized''"
    using Cons.prems by (intro Cons.IH) auto
  ultimately show ?case by (simp add: a)
qed

text \<open>
  C2. For every payee, \<^verbatim>\<open>auto_categorize_transaction\<close> returns the category of the first
  entry of the keyword table, in the order of the table, that has a keyword whose lower
  case form occurs in the lower case form of the payee, and \<^verbatim>\<open>Uncategorized\<close> when no
  entry has one; for the empty payee it returns \<^verbatim>\<open>Uncategorized\<close>.
\<close>

theorem auto_categorize_first_match:
  "auto_categorize_transaction p =
     (case find (\<lambda>(c, kws). \<exists>k\<in>set kws. sublist (lower k) (lower p)) CATEGORY_KEYWORDS of
        None \<Rightarrow> ''Uncategorized''
      | Some (c, kws) \<Rightarrow> c)
   \<and> auto_categorize_transaction [] = ''Uncategorized''"
proof -
  have eq: "auto_categorize_transaction p =
     (case find (\<lambda>(c, kws). \<exists>k\<in>set kws. sublist (lower k) (lower p)) CATEGORY_KEYWORDS of
        None \<Rightarrow> ''Uncategorized''
      | Some (c, kws) \<Rightarrow> c)"
  proof (cases "p = []")
    case True
    have "category_loop [] CATEGORY_KEYWORDS = ''Uncategorized''"
      by (rule category_loop_Nil) (rule keywords_nonempty)
    then have "category_loop (lower p) CATEGORY_KEYWORDS = ''Uncategorized''"
      using True by (simp add: lower_def)
    then show ?thesis
      using True by (simp add: auto_categorize_transaction_def flip: category_loop_find)
  next
    case False
    then show ?thesis
      by (simp add: auto_categorize_transaction_def category_loop_find)
  qed
  have "auto_categorize_transaction [] = ''Uncategorized''"
    by (simp add: auto_categorize_transaction_def)
  with eq show ?thesis by simp
qed

theorem auto_categorize_first_match_witness:
  "auto_categorize_transaction ''STARBUCKS #123'' = ''Food & Dining''"
proof -
  have f: "find (\<lambda>(c, kws). \<exists>k\<in>set kws. sublist (lower k) (lower ''STARBUCKS #123''))
             CATEGORY_KEYWORDS
     = Some (''Food & Dining'', [''restaurant'', ''cafe'', ''starbucks'', ''mcdonald'',
         ''chipotle'', ''pizza'', ''uber eats'', ''doordash'', ''grubhub''])"
    by code_simp
  show ?thesis
    using auto_categorize_first_match [of "''STARBUCKS #123''"]
    by (simp only: f option.case prod.case simp_thms)
qed

text \<open>
  C7. A rule whose condition is none of \<^verbatim>\<open>contains\<close>, \<^verbatim>\<open>equals\<close>,
  \<^verbatim>\<open>starts_with\<close> and \<^verbatim>\<open>ends_with\<close> matches no transaction, whatever its field and
  its value are.
\<close>

theorem unknown_condition_no_match:
  "rule_condition r \<notin> {''contains'', ''equals'', ''starts_with'', ''ends_with''}
     \<Longrightarrow> \<not> apply_rule render t r"
  by (simp add: apply_rule_def Let_def)

theorem unknown_condition_no_match_witness:
  "rule_condition (example_rule 1 ''payee'' ''regex'' ''amazon'' ''Shopping'')
     \<notin> {''contains'', ''equals'', ''starts_with'', ''ends_with''}
   \<and> \<not> apply_rule (\<lambda>c. '''') (example_txn ''t1'' ''AMAZON.COM'' (-20) ''Uncategorized'')
         (example_rule 1 ''payee'' ''regex'' ''amazon'' ''Shopping'')"
proof -
  have h: "rule_condition (example_rule 1 ''payee'' ''regex'' ''amazon'' ''Shopping'')
     \<notin> {''contains'', ''equals'', ''starts_with'', ''ends_with''}"
    by (simp add: example_rule_def)
  show ?thesis
    using h unknown_condition_no_match [OF h] by simp
qed

text \<open>
  C10. When the field named by a rule is not a column of the transaction, the rule's
  condition is evaluated against the empty string. If the lower case form of the rule's
  value is the empty string too, the rule matches the transaction under each of the four
  conditions, and applying it to a transaction of another category emits an update.
\<close>

theorem absent_field_matches_empty_value:
  assumes "rule_field r \<notin> set columns"
    and "lower (py_str render (rule_value r)) = []"
    and "rule_condition r \<in> {''contains'', ''equals'', ''starts_with'', ''ends_with''}"
  shows "lower (py_str render (get t (rule_field r) (Text ''''))) = []
    \<and> apply_rule render t r
    \<and> (category t \<noteq> rule_category r \<longrightarrow>
         apply_rules_to_transactions render [t] [r] = [(transaction_id t, rule_category r)])"
proof -
  have g: "get t (rule_field r) (Text '''') = Text ''''"
    using assms(1) by (simp add: get_def columns_def)
  have fv: "lower (py_str render (get t (rule_field r) (Text ''''))) = []"
    by (simp add: g lower_def)
  have m: "apply_rule render t r"
    unfolding apply_rule_def Let_def fv assms(2) using assms(3) by auto
  show ?thesis
    using fv m by (simp add: apply_rules_to_transactions_def)
qed

theorem absent_field_matches_empty_value_witness:
  "rule_field (example_rule 1 ''payeee'' ''ends_with'' '''' ''Other'') \<notin> set columns
   \<and> apply_rule (\<lambda>c. '''') (example_txn ''t1'' ''AMAZON.COM'' (-20) ''Shopping'')
       (example_rule 1 ''payeee'' ''ends_with'' '''' ''Other'')
   \<and> apply_rules_to_transactions (\<lambda>c. '''')
       [example_txn ''t1'' ''AMAZON.COM'' (-20) ''Shopping'']
       [example_rule 1 ''payeee'' ''ends_with'' '''' ''Other''] = [(''t1'', ''Other'')]"
proof -
  let ?r = "example_rule 1 ''payeee'' ''ends_with'' '''' ''Other''"
  let ?t = "example_txn ''t1'' ''AMAZON.COM'' (-20) ''Shopping''"
  have h1: "rule_field ?r \<notin> set columns"
    by (simp add: example_rule_def columns_def)
  have h2: "lower (py_str (\<lambda>c. '''') (rule_value ?r)) = []"
    by (simp add: example_rule_def lower_def)
  have h3: "rule_condition ?r \<in> {''contains'', ''equals'', ''starts_with'', ''ends_with''}"
    by (simp add: example_rule_def)
  have h4: "category ?t \<noteq> rule_category ?r"
    by (simp add: example_rule_def example_txn_def)
  show ?thesis
    using h1 h4 absent_field_matches_empty_value [OF h1 h2 h3, of ?t]
    by (simp add: example_rule_def example_txn_def)
qed

section \<open>Budget progress\<close>

lemma map_of_groupby_sum:
  "map_of (groupby_sum key col rows) k =
     (if k \<in> key ` set rows then Some (sum_list (map col (filter (\<lambda>r. key r = k) rows)))
      else None)"
proof -
  have "map_of (map (\<lambda>k. (k, f k)) ks) k = (if k \<in> set ks then Some (f k) else None)"
    for f :: "string \<Rightarrow> real" and ks
    by (induction ks) auto
  then show ?thesis by (simp add: groupby_sum_def)
qed

lemma sum_list_nonpos: "(\<And>x. x \<in> set xs \<Longrightarrow> x \<le> 0) \<Longrightarrow> sum_list xs \<le> (0::real)"
  by (induction xs) (auto intro: add_nonpos_nonpos)

lemma expense_sum_nonpos:
  "sum_list (map amount (filter (\<lambda>t. amount t < 0 \<and> category t = c) ts)) \<le> 0"
  by (rule sum_list_nonpos) auto

lemma spending_lookup:
  "(case map_of (groupby_sum category amount (filter (\<lambda>t. amount t < 0) ts)) c of
      None \<Rightarrow> 0 | Some s \<Rightarrow> s)
   = sum_list (map amount (filter (\<lambda>t. amount t < 0 \<and> category t = c) ts))"
proof (cases "c \<in> category ` set (filter (\<lambda>t. amount t < 0) ts)")
  case True
  then show ?thesis
    by (simp add: map_of_groupby_sum del: set_filter)
next
  case False
  then have "filter (\<lambda>t. amount t < 0 \<and> category t = c) ts = []"
    by (auto simp: filter_empty_conv)
  with False show ?thesis
    by (simp add: map_of_groupby_sum del: set_filter)
qed

lemma budget_progress_rows:
  "calculate_budget_progress bs ts =
     map (\<lambda>b. b\<lparr>spent := sum_list (map amount
           (filter (\<lambda>t. amount t < 0 \<and> category t = budget_category b) ts))\<rparr>) bs"
  by (simp add: calculate_budget_progress_def Let_def spending_lookup)

lemma abs_expense_mono:
  "\<bar>sum_list (map amount (filter (\<lambda>t. amount t < 0 \<and> category t = c) ts))\<bar>
     \<le> \<bar>sum_list (map amount (filter (\<lambda>t. amount t < 0 \<and> category t = c) (extra @ ts)))\<bar>"
proof -
  have a: "sum_list (map amount (filter (\<lambda>t. amount t < 0 \<and> category t = c) ts)) \<le> 0"
    by (rule expense_sum_nonpos)
  have b: "sum_list (map amount (filter (\<lambda>t. amount t < 0 \<and> category t = c) extra)) \<le> 0"
    by (rule expense_sum_nonpos)
  show ?thesis using a b by simp
qed

text \<open>
  C3. Take two rows with the same budgeted amount, which is positive. If the magnitude of
  \<open>spent\<close> in the second is at least the one in the first, then \<open>percent\<close> of the second
  is at least the one of the first and \<open>remaining\<close> of the second is at most the one of
  the first. A row whose magnitude of \<open>spent\<close> exceeds its budgeted amount has a negative
  \<open>remaining\<close> and a \<open>percent\<close> above 100: nothing is clamped. Adding transactions to the
  frame keeps the budgeted amount of every row of \<^verbatim>\<open>calculate_budget_progress\<close> and does
  not lower the magnitude of its \<open>spent\<close>.
\<close>

theorem budget_progress_monotone:
  "(0 < budgeted r \<and> budgeted r' = budgeted r \<and> \<bar>spent r\<bar> \<le> \<bar>spent r'\<bar> \<longrightarrow>
      percent r \<le> percent r' \<and> remaining r' \<le> remaining r)
   \<and> (0 < budgeted r \<and> budgeted r < \<bar>spent r\<bar> \<longrightarrow> remaining r < 0 \<and> 100 < percent r)
   \<and> list_all2 (\<lambda>r r'. budgeted r' = budgeted r \<and> \<bar>spent r\<bar> \<le> \<bar>spent r'\<bar>)
        (calculate_budget_progress bs ts) (calculate_budget_progress bs (extra @ ts))"
proof -
  have mono: "percent r \<le> percent r' \<and> remaining r' \<le> remaining r"
    if "0 < budgeted r" "budgeted r' = budgeted r" "\<bar>spent r\<bar> \<le> \<bar>spent r'\<bar>"
    using that by (simp add: percent_def remaining_def shown_spent_def divide_right_mono)
  have over: "remaining r < 0 \<and> 100 < percent r"
    if "0 < budgeted r" "budgeted r < \<bar>spent r\<bar>"
    using that by (simp add: percent_def remaining_def shown_spent_def less_divide_eq)
  have link: "list_all2 (\<lambda>r r'. budgeted r' = budgeted r \<and> \<bar>spent r\<bar> \<le> \<bar>spent r'\<bar>)
        (calculate_budget_progress bs ts) (calculate_budget_progress bs (extra @ ts))"
    unfolding budget_progress_rows list_all2_map1 list_all2_map2
    by (rule list_all2_refl)
      (simp add: abs_expense_mono del: filter_append map_append sum_list_append)
  show ?thesis using mono over link by blast
qed

theorem budget_progress_monotone_witness:
  "percent (example_budget ''Shopping'' 500 (-100)) \<le> percent (example_budget ''Shopping'' 500 (-650))
   \<and> remaining (example_budget ''Shopping'' 500 (-650)) \<le> remaining (example_budget ''Shopping'' 500 (-100))
   \<and> remaining (example_budget ''Shopping'' 500 (-650)) < 0
   \<and> 100 < percent (example_budget ''Shopping'' 500 (-650))"
  using budget_progress_monotone [of "example_budget ''Shopping'' 500 (-100)"
          "example_budget ''Shopping'' 500 (-650)" "[]" "[]" "[]"]
        budget_progress_monotone [of "example_budget ''Shopping'' 500 (-650)"
          "example_budget ''Shopping'' 500 (-650)" "[]" "[]" "[]"]
  by (simp add: example_budget_def)

text \<open>
  C4. \<^verbatim>\<open>calculate_budget_progress\<close> returns the budget rows in their order, each with
  \<open>spent\<close> set to the sum of the amounts of the transactions that have a negative amount
  and the category of the row. So every \<open>spent\<close> is negative or zero, and it is zero for
  a row whose category has no transaction with a negative amount.
\<close>

theorem budget_progress_spent:
  "calculate_budget_progress bs ts =
     map (\<lambda>b. b\<lparr>spent := sum_list (map amount
           (filter (\<lambda>t. amount t < 0 \<and> category t = budget_category b) ts))\<rparr>) bs
   \<and> (\<forall>r\<in>set (calculate_budget_progress bs ts). spent r \<le> 0)
   \<and> (\<forall>i<length bs.
        (\<forall>t\<in>set ts. amount t < 0 \<longrightarrow> category t \<noteq> budget_category (bs ! i)) \<longrightarrow>
        spent (calculate_budget_progress bs ts ! i) = 0)"
proof -
  have nonpos: "\<forall>r\<in>set (calculate_budget_progress bs ts). spent r \<le> 0"
    by (auto simp: budget_progress_rows expense_sum_nonpos)
  have zero: "spent (calculate_budget_progress bs ts ! i) = 0"
    if "i < length bs"
      and "\<forall>t\<in>set ts. amount t < 0 \<longrightarrow> category t \<noteq> budget_category (bs ! i)" for i
  proof -
    have "filter (\<lambda>t. amount t < 0 \<and> category t = budget_category (bs ! i)) ts = []"
      using that(2) by (auto simp: filter_empty_conv)
    then show ?thesis using that(1) by (simp add: budget_progress_rows)
  qed
  show ?thesis
    using nonpos zero budget_progress_rows by blast
qed

theorem budget_progress_spent_witness:
  "calculate_budget_progress
     [example_budget ''Shopping'' 500 0, example_budget ''Travel'' 300 7]
     [example_txn ''t1'' ''Employer'' 1000 ''Shopping'',
      example_txn ''t2'' ''Shop'' (-200) ''Shopping'',
      example_txn ''t3'' ''Shop'' (-450) ''Shopping'',
      example_txn ''t4'' ''Airline'' 40 ''Travel'']
   = [example_budget ''Shopping'' 500 (-650), example_budget ''Travel'' 300 0]"
proof -
  let ?bs = "[example_budget ''Shopping'' 500 0, example_budget ''Travel'' 300 7]"
  let ?ts = "[example_txn ''t1'' ''Employer'' 1000 ''Shopping'',
      example_txn ''t2'' ''Shop'' (-200) ''Shopping'',
      example_txn ''t3'' ''Shop'' (-450) ''Shopping'',
      example_txn ''t4'' ''Airline'' 40 ''Travel'']"
  have "calculate_budget_progress ?bs ?ts =
     map (\<lambda>b. b\<lparr>spent := sum_list (map amount
           (filter (\<lambda>t. amount t < 0 \<and> category t = budget_category b) ?ts))\<rparr>) ?bs"
    using budget_progress_spent [of ?bs ?ts] by (rule conjunct1)
  also have "\<dots> = [example_budget ''Shopping'' 500 (-650), example_budget ''Travel'' 300 0]"
    by (simp add: example_budget_def example_txn_def)
  finally show ?thesis .
qed

section \<open>Monthly summary\<close>












section \<open>Trend\<close>

text \<open>
  C6. When \<open>previous\<close> is zero, \<^verbatim>\<open>calculate_trend\<close> returns \<open>(0, neutral)\<close>, so for
  \<open>(0, 0)\<close> and for \<open>(100, 0)\<close>. Otherwise it returns the absolute value of
  \<open>(current - previous) / previous\<close> times 100, with the direction \<^verbatim>\<open>up\<close> when
  \<open>current\<close> is above \<open>previous\<close>, \<^verbatim>\<open>down\<close> when it is below, and \<^verbatim>\<open>neutral\<close> when
  they are equal.
\<close>

theorem calculate_trend_spec:
  "calculate_trend current previous =
     (if previous = 0 then (0, ''neutral'')
      else (\<bar>(current - previous) / previous\<bar> * 100,
            if current > previous then ''up''
            else if current < previous then ''down'' else ''neutral''))
   \<and> calculate_trend 0 0 = (0, ''neutral'')
   \<and> calculate_trend 100 0 = (0, ''neutral'')"
proof -
  have eq: "calculate_trend current previous =
     (if previous = 0 then (0, ''neutral'')
      else (\<bar>(current - previous) / previous\<bar> * 100,
            if current > previous then ''up''
            else if current < previous then ''down'' else ''neutral''))"
  proof (cases "previous = 0")
    case True
    then show ?thesis by (simp add: calculate_trend_def)
  next
    case False
    then have p: "0 < \<bar>previous\<bar>" by simp
    have pos: "0 < (current - previous) / \<bar>previous\<bar> * 100 \<longleftrightarrow> previous < current"
      using p by (simp add: zero_less_mult_iff zero_less_divide_iff)
    have neg: "(current - previous) / \<bar>previous\<bar> * 100 < 0 \<longleftrightarrow> current < previous"
      using p by (simp add: mult_less_0_iff divide_less_0_iff)
    have ab: "\<bar>(current - previous) / \<bar>previous\<bar> * 100\<bar> = \<bar>(current - previous) / previous\<bar> * 100"
      by (simp only: abs_mult abs_divide abs_idempotent abs_numeral)
    have "calculate_trend current previous =
        (\<bar>(current - previous) / \<bar>previous\<bar> * 100\<bar>,
         if 0 < (current - previous) / \<bar>previous\<bar> * 100 then ''up''
         else if (current - previous) / \<bar>previous\<bar> * 100 < 0 then ''down'' else ''neutral'')"
      using False by (simp only: calculate_trend_def Let_def if_False)
    then show ?thesis
      using False by (simp only: pos neg ab if_False)
  qed
  have "calculate_trend 0 0 = (0, ''neutral'')" "calculate_trend 100 0 = (0, ''neutral'')"
    by (simp_all add: calculate_trend_def)
  with eq show ?thesis by blast
qed

theorem calculate_trend_spec_witness:
  "calculate_trend 50 (- 100) = (150, ''up'') \<and> calculate_trend 80 100 = (20, ''down'')"
  using calculate_trend_spec [of 50 "- 100"] calculate_trend_spec [of 80 100]
  by simp

section \<open>Top merchants\<close>

lemma groupby_keys: "map fst (groupby_sum key col rows) = sort (remdups (map key rows))"
  by (simp add: groupby_sum_def comp_def)

lemma groupby_keys_distinct: "distinct (map fst (groupby_sum key col rows))"
  by (simp add: groupby_keys)

lemma set_groupby_sum:
  "set (groupby_sum key col rows) =
     (\<lambda>k. (k, sum_list (map col (filter (\<lambda>r. key r = k) rows)))) ` key ` set rows"
  by (simp add: groupby_sum_def)

lemma length_groupby_sum: "length (groupby_sum key col rows) = card (key ` set rows)"
  by (simp add: groupby_sum_def length_remdups_card_conv)

lemma length_groupby_sum_le: "length (groupby_sum key col rows) \<le> length rows"
  by (simp add: groupby_sum_def) (metis length_map length_remdups_leq)

text \<open>What follows from the promise of the sort.\<close>

lemma descending_sort_mset: "descending_sort srt \<Longrightarrow> mset (srt s) = mset s"
  by (simp add: descending_sort_def)

lemma descending_sort_sorted:
  "descending_sort srt \<Longrightarrow> sorted_wrt (\<lambda>a b. snd b \<le> snd a) (srt s)"
  by (simp add: descending_sort_def)

lemma descending_sort_set: "descending_sort srt \<Longrightarrow> set (srt s) = set s"
  by (metis descending_sort_mset set_mset_mset)

lemma descending_sort_length: "descending_sort srt \<Longrightarrow> length (srt s) = length s"
  by (metis descending_sort_mset size_mset)

lemma descending_sort_sum:
  "descending_sort srt \<Longrightarrow> sum_list (map snd (srt s)) = sum_list (map snd s)"
proof -
  assume "descending_sort srt"
  then have "mset (map snd (srt s)) = mset (map snd s)"
    by (simp add: descending_sort_def)
  then show ?thesis by (metis sum_mset_sum_list)
qed

lemma descending_sort_distinct:
  "descending_sort srt \<Longrightarrow> distinct (map fst s) \<Longrightarrow> distinct (map fst (srt s))"
proof -
  assume "descending_sort srt" and d: "distinct (map fst s)"
  then have "mset (map fst (srt s)) = mset (map fst s)"
    by (simp add: descending_sort_def)
  then show ?thesis using d by (metis mset_eq_imp_distinct_iff)
qed

lemma stable_sort_values_descending: "descending_sort stable_sort_values"
proof -
  have "sorted_wrt (\<lambda>a b. snd b \<le> snd a) (stable_sort_values s)" for s
  proof -
    have "sorted (map snd (sort_key snd (rev s)))" by (rule sorted_sort_key)
    then have "sorted_wrt (\<lambda>a b. snd a \<le> snd b) (sort_key snd (rev s))"
      by (simp add: sorted_wrt_map)
    then show ?thesis by (simp add: stable_sort_values_def sorted_wrt_rev)
  qed
  moreover have "mset (stable_sort_values s) = mset s" for s
    by (simp add: stable_sort_values_def)
  ultimately show ?thesis by (simp add: descending_sort_def)
qed

lemma reversing_sort_values_descending: "descending_sort reversing_sort_values"
proof -
  have "sorted_wrt (\<lambda>a b. snd b \<le> snd a) (reversing_sort_values s)" for s
  proof -
    have "sorted (map snd (sort_key snd s))" by (rule sorted_sort_key)
    then have "sorted_wrt (\<lambda>a b. snd a \<le> snd b) (sort_key snd s)"
      by (simp add: sorted_wrt_map)
    then show ?thesis by (simp add: reversing_sort_values_def sorted_wrt_rev)
  qed
  moreover have "mset (reversing_sort_values s) = mset s" for s
    by (simp add: reversing_sort_values_def)
  ultimately show ?thesis by (simp add: descending_sort_def)
qed

lemma sorted_wrt_head: "sorted_wrt R xs \<Longrightarrow> sorted_wrt R (head n xs)"
  by (simp add: head_def)

lemma set_head_subset: "set (head n xs) \<subseteq> set xs"
  by (simp add: head_def set_take_subset)

lemma distinct_head: "distinct (map f xs) \<Longrightarrow> distinct (map f (head n xs))"
  by (simp add: head_def take_map[symmetric] del: take_map)

lemma head_all: "int (length xs) \<le> n \<Longrightarrow> head n xs = xs"
  by (simp add: head_def)

lemma sum_list_delta:
  "distinct ks \<Longrightarrow> a \<in> set ks \<Longrightarrow> (\<Sum>k\<leftarrow>ks. if a = k then c else 0) = (c::real)"
proof (induction ks)
  case Nil
  then show ?case by simp
next
  case (Cons k ks)
  show ?case
  proof (cases "a = k")
    case True
    then have "a \<notin> set ks" using Cons.prems by simp
    then have "(\<Sum>k\<leftarrow>ks. if a = k then c else 0) = 0"
      by (induction ks) auto
    then show ?thesis using True by simp
  next
    case False
    then show ?thesis using Cons by simp
  qed
qed

text \<open>Summing the group sums over a duplicate-free list of all keys gives the whole sum.\<close>

lemma sum_list_groups:
  "distinct ks \<Longrightarrow> key ` set rows \<subseteq> set ks \<Longrightarrow>
   (\<Sum>k\<leftarrow>ks. sum_list (map col (filter (\<lambda>r. key r = k) rows))) = sum_list (map col rows)"
  for col :: "'r \<Rightarrow> real"
proof (induction rows)
  case Nil
  show ?case by simp
next
  case (Cons r rs)
  have "(\<Sum>k\<leftarrow>ks. sum_list (map col (filter (\<lambda>r. key r = k) (r # rs))))
      = (\<Sum>k\<leftarrow>ks. (if key r = k then col r else 0)
                  + sum_list (map col (filter (\<lambda>r. key r = k) rs)))"
    by (rule arg_cong[where f = sum_list], rule map_cong) auto
  also have "\<dots> = (\<Sum>k\<leftarrow>ks. if key r = k then col r else 0)
       + (\<Sum>k\<leftarrow>ks. sum_list (map col (filter (\<lambda>r. key r = k) rs)))"
    by (simp add: sum_list_addf)
  also have "(\<Sum>k\<leftarrow>ks. if key r = k then col r else 0) = col r"
    using Cons.prems by (intro sum_list_delta) auto
  also have "(\<Sum>k\<leftarrow>ks. sum_list (map col (filter (\<lambda>r. key r = k) rs))) = sum_list (map col rs)"
    using Cons.prems by (intro Cons.IH) auto
  finally show ?case by simp
qed

lemma sum_list_groupby_sum:
  "sum_list (map snd (groupby_sum key col rows)) = sum_list (map col rows)"
proof -
  have "sum_list (map snd (groupby_sum key col rows))
      = (\<Sum>k\<leftarrow>sort (remdups (map key rows)). sum_list (map col (filter (\<lambda>r. key r = k) rows)))"
    by (simp add: groupby_sum_def comp_def)
  also have "\<dots> = sum_list (map col rows)"
    by (rule sum_list_groups) simp_all
  finally show ?thesis .
qed

lemma sum_list_abs_neg:
  "(\<And>x. x \<in> set xs \<Longrightarrow> x < 0) \<Longrightarrow> sum_list (map abs xs) = \<bar>sum_list xs\<bar>"
  for xs :: "real list"
proof -
  assume neg: "\<And>x. x \<in> set xs \<Longrightarrow> x < 0"
  have "sum_list (map abs xs) = - sum_list xs"
    using neg
  proof (induction xs)
    case Nil
    show ?case by simp
  next
    case (Cons a xs)
    have "a < 0" using Cons.prems by simp
    moreover have "sum_list (map abs xs) = - sum_list xs"
      using Cons.prems by (intro Cons.IH) simp
    ultimately show ?case by simp
  qed
  moreover have "sum_list xs \<le> 0"
    using neg by (intro sum_list_nonpos) (simp add: less_imp_le)
  ultimately show ?thesis by simp
qed

lemma expenses_payees:
  "payee ` set (map (\<lambda>t. t\<lparr>amount := \<bar>amount t\<bar>\<rparr>) (filter (\<lambda>t. amount t < 0) df))
     = payee ` {t \<in> set df. amount t < 0}"
  by (auto simp: image_iff)

lemma expenses_group_sum:
  "sum_list (map amount (filter (\<lambda>r. payee r = k)
       (map (\<lambda>t. t\<lparr>amount := \<bar>amount t\<bar>\<rparr>) (filter (\<lambda>t. amount t < 0) df))))
   = sum_list (map (\<lambda>t. \<bar>amount t\<bar>) (filter (\<lambda>t. amount t < 0 \<and> payee t = k) df))"
  by (simp add: filter_map comp_def)

lemma top_merchants_full:
  assumes "descending_sort srt"
  shows "get_top_merchants srt df (int (length df)) =
     srt (groupby_sum payee amount
       (map (\<lambda>t. t\<lparr>amount := \<bar>amount t\<bar>\<rparr>) (filter (\<lambda>t. amount t < 0) df)))"
proof -
  let ?E = "map (\<lambda>t. t\<lparr>amount := \<bar>amount t\<bar>\<rparr>) (filter (\<lambda>t. amount t < 0) df)"
  have "length (groupby_sum payee amount ?E) \<le> length ?E"
    by (rule length_groupby_sum_le)
  also have "\<dots> \<le> length df" by simp
  finally have "int (length (srt (groupby_sum payee amount ?E))) \<le> int (length df)"
    using assms by (simp add: descending_sort_length)
  then show ?thesis
    by (simp add: get_top_merchants_def Let_def head_all)
qed

text \<open>
  C8, as the code has it. Whatever order the sort gives to entries of equal value, the
  rows that \<^verbatim>\<open>get_top_merchants\<close> returns are in descending order of their totals.
  Each row is a payee that has an expense, with the sum of the absolute values of its
  negative amounts, and no payee comes twice. The result is the head of the full ranking,
  and the full ranking holds every payee that has an expense. Nothing is said of the order
  of payees with equal totals.
\<close>

theorem top_merchants_ranking:
  assumes "descending_sort srt"
  shows "sorted_wrt (\<lambda>a b. snd b \<le> snd a) (get_top_merchants srt df n)
   \<and> (\<forall>(p, s)\<in>set (get_top_merchants srt df n).
         (\<exists>t\<in>set df. amount t < 0 \<and> payee t = p) \<and>
         s = sum_list (map (\<lambda>t. \<bar>amount t\<bar>) (filter (\<lambda>t. amount t < 0 \<and> payee t = p) df)))
   \<and> distinct (map fst (get_top_merchants srt df n))
   \<and> get_top_merchants srt df n = head n (get_top_merchants srt df (int (length df)))
   \<and> set (map fst (get_top_merchants srt df (int (length df))))
        = set (map payee (filter (\<lambda>t. amount t < 0) df))"
proof -
  let ?E = "map (\<lambda>t. t\<lparr>amount := \<bar>amount t\<bar>\<rparr>) (filter (\<lambda>t. amount t < 0) df)"
  let ?G = "groupby_sum payee amount ?E"
  have top: "get_top_merchants srt df n = head n (srt ?G)"
    by (simp add: get_top_merchants_def Let_def)
  have "sorted_wrt (\<lambda>a b. snd b \<le> snd a) (srt ?G)"
    using assms by (rule descending_sort_sorted)
  then have c1: "sorted_wrt (\<lambda>a b. snd b \<le> snd a) (get_top_merchants srt df n)"
    unfolding top by (rule sorted_wrt_head)
  have G: "set ?G = (\<lambda>k. (k, sum_list (map (\<lambda>t. \<bar>amount t\<bar>)
               (filter (\<lambda>t. amount t < 0 \<and> payee t = k) df)))) ` payee ` {t \<in> set df. amount t < 0}"
    unfolding set_groupby_sum expenses_payees expenses_group_sum ..
  have S: "set (srt ?G) = set ?G"
    using assms by (rule descending_sort_set)
  have "set (get_top_merchants srt df n) \<subseteq> set ?G"
    unfolding top using set_head_subset[of n "srt ?G"] by (simp add: S)
  then have c2: "\<forall>(p, s)\<in>set (get_top_merchants srt df n).
         (\<exists>t\<in>set df. amount t < 0 \<and> payee t = p) \<and>
         s = sum_list (map (\<lambda>t. \<bar>amount t\<bar>) (filter (\<lambda>t. amount t < 0 \<and> payee t = p) df))"
    unfolding G by auto
  have "distinct (map fst (srt ?G))"
    using assms groupby_keys_distinct by (rule descending_sort_distinct)
  then have c3: "distinct (map fst (get_top_merchants srt df n))"
    unfolding top by (rule distinct_head)
  have c4: "get_top_merchants srt df n = head n (get_top_merchants srt df (int (length df)))"
    unfolding top_merchants_full[OF assms] top ..
  have c5: "set (map fst (get_top_merchants srt df (int (length df))))
        = set (map payee (filter (\<lambda>t. amount t < 0) df))"
    unfolding top_merchants_full[OF assms] set_map S G by (simp add: image_image)
  show ?thesis using c1 c2 c3 c4 c5 by blast
qed

theorem top_merchants_ranking_witness:
  "get_top_merchants reversing_sort_values example_txns 3
     = [(''Zed'', 7), (''Cy'', 7), (''Bob'', 7)]
   \<and> sorted_wrt (\<lambda>a b. snd b \<le> snd a) [(''Zed'', 7::real), (''Cy'', 7), (''Bob'', 7)]"
proof -
  have v: "get_top_merchants reversing_sort_values example_txns 3
     = [(''Zed'', 7), (''Cy'', 7), (''Bob'', 7)]"
    by code_simp
  have "sorted_wrt (\<lambda>a b. snd b \<le> snd a) (get_top_merchants reversing_sort_values example_txns 3)"
    using top_merchants_ranking [OF reversing_sort_values_descending, of example_txns 3]
    by (rule conjunct1)
  then show ?thesis
    by (simp only: v simp_thms)
qed

text \<open>
  C8, as the claim states it, fails. The two frames of the first part hold the same two
  expenses in opposite orders, so the claim asks for \<^verbatim>\<open>Zed\<close> before \<^verbatim>\<open>Bob\<close> on the one
  and for \<^verbatim>\<open>Bob\<close> before \<^verbatim>\<open>Zed\<close> on the other. No sort does both: the grouped series
  has its keys in ascending order and is the same for the two frames. In the second part
  the payees appear in the order \<^verbatim>\<open>Ann\<close>, \<^verbatim>\<open>Ben\<close>, \<^verbatim>\<open>Cat\<close>, \<^verbatim>\<open>Dan\<close>, which is also the
  order of the grouped series, and a sort that keeps the promise of pandas returns the
  payees of equal total in the opposite order: the sort need not be stable.
\<close>

theorem top_merchants_insertion_order_counterexample:
  "\<not> (\<exists>srt.
        map fst (get_top_merchants srt
          [example_txn ''t1'' ''Zed'' (-5) ''Other'', example_txn ''t2'' ''Bob'' (-5) ''Other''] 2)
          = [''Zed'', ''Bob'']
      \<and> map fst (get_top_merchants srt
          [example_txn ''t1'' ''Bob'' (-5) ''Other'', example_txn ''t2'' ''Zed'' (-5) ''Other''] 2)
          = [''Bob'', ''Zed''])
   \<and> get_top_merchants reversing_sort_values
        [example_txn ''t1'' ''Ann'' (-5) ''Other'', example_txn ''t2'' ''Ben'' (-5) ''Other'',
         example_txn ''t3'' ''Cat'' (-9) ''Other'', example_txn ''t4'' ''Dan'' (-9) ''Other''] 4
      = [(''Dan'', 9), (''Cat'', 9), (''Ben'', 5), (''Ann'', 5)]"
proof -
  have g: "groupby_sum payee amount (map (\<lambda>t. t\<lparr>amount := \<bar>amount t\<bar>\<rparr>) (filter (\<lambda>t. amount t < 0)
          [example_txn ''t1'' ''Zed'' (-5) ''Other'', example_txn ''t2'' ''Bob'' (-5) ''Other'']))
      = groupby_sum payee amount (map (\<lambda>t. t\<lparr>amount := \<bar>amount t\<bar>\<rparr>) (filter (\<lambda>t. amount t < 0)
          [example_txn ''t1'' ''Bob'' (-5) ''Other'', example_txn ''t2'' ''Zed'' (-5) ''Other'']))"
    by code_simp
  have same: "get_top_merchants srt
          [example_txn ''t1'' ''Zed'' (-5) ''Other'', example_txn ''t2'' ''Bob'' (-5) ''Other''] 2
      = get_top_merchants srt
          [example_txn ''t1'' ''Bob'' (-5) ''Other'', example_txn ''t2'' ''Zed'' (-5) ''Other''] 2"
    for srt
    unfolding get_top_merchants_def Let_def g ..
  have a: "\<not> (\<exists>srt.
        map fst (get_top_merchants srt
          [example_txn ''t1'' ''Zed'' (-5) ''Other'', example_txn ''t2'' ''Bob'' (-5) ''Other''] 2)
          = [''Zed'', ''Bob'']
      \<and> map fst (get_top_merchants srt
          [example_txn ''t1'' ''Bob'' (-5) ''Other'', example_txn ''t2'' ''Zed'' (-5) ''Other''] 2)
          = [''Bob'', ''Zed''])"
    unfolding same by simp
  have b: "get_top_merchants reversing_sort_values
        [example_txn ''t1'' ''Ann'' (-5) ''Other'', example_txn ''t2'' ''Ben'' (-5) ''Other'',
         example_txn ''t3'' ''Cat'' (-9) ''Other'', example_txn ''t4'' ''Dan'' (-9) ''Other''] 4
      = [(''Dan'', 9), (''Cat'', 9), (''Ben'', 5), (''Ann'', 5)]"
    by code_simp
  show ?thesis using a b by (rule conjI)
qed

text \<open>
  C9. When \<open>n\<close> is the number of distinct payees that have a transaction with a negative
  amount, the totals that \<^verbatim>\<open>get_top_merchants\<close> returns add up to the absolute value of
  the sum of all negative amounts of the frame, whatever order the sort gives to entries
  of equal value.
\<close>

theorem top_merchants_total:
  assumes "descending_sort srt"
    and "n = int (card (set (map payee (filter (\<lambda>t. amount t < 0) df))))"
  shows "sum_list (map snd (get_top_merchants srt df n))
           = \<bar>sum_list (map amount (filter (\<lambda>t. amount t < 0) df))\<bar>"
proof -
  let ?E = "map (\<lambda>t. t\<lparr>amount := \<bar>amount t\<bar>\<rparr>) (filter (\<lambda>t. amount t < 0) df)"
  let ?G = "groupby_sum payee amount ?E"
  have "length (srt ?G) = card (payee ` {t \<in> set df. amount t < 0})"
    unfolding descending_sort_length[OF assms(1)] length_groupby_sum expenses_payees ..
  then have "get_top_merchants srt df n = srt ?G"
    using assms(2) by (simp add: get_top_merchants_def Let_def head_all)
  then have "sum_list (map snd (get_top_merchants srt df n)) = sum_list (map amount ?E)"
    by (simp only: descending_sort_sum[OF assms(1)] sum_list_groupby_sum)
  also have "\<dots> = sum_list (map abs (map amount (filter (\<lambda>t. amount t < 0) df)))"
    by (simp add: comp_def)
  also have "\<dots> = \<bar>sum_list (map amount (filter (\<lambda>t. amount t < 0) df))\<bar>"
    by (rule sum_list_abs_neg) auto
  finally show ?thesis .
qed

theorem top_merchants_total_witness:
  "(4::int) = int (card (set (map payee (filter (\<lambda>t. amount t < 0) example_txns))))
   \<and> sum_list (map snd (get_top_merchants stable_sort_values example_txns 4)) = 26"
proof -
  have h: "(4::int) = int (card (set (map payee (filter (\<lambda>t. amount t < 0) example_txns))))"
    by code_simp
  have "\<bar>sum_list (map amount (filter (\<lambda>t. amount t < 0) example_txns))\<bar> = 26"
    by (simp add: example_txns_def example_txn_def)
  then show ?thesis
    using h top_merchants_total [OF stable_sort_values_descending h] by simp
qed

end
